theory Spec2Isabelle
  imports Complex_Main "HOL-Library.Word"
begin

section \<open>JavaScript numbers and \<open>parseInt\<close>\<close>

text \<open>
  The handlers of \<^verbatim>\<open>src/index.ts\<close> compute sizes and counters with JavaScript numbers.
  These are integers, \<open>NaN\<close> (the result of \<open>parseInt\<close> on a string without a leading
  numeral) or one of the two infinities (the result of \<open>parseInt\<close> on a numeral beyond the
  range of doubles). The arithmetic and the comparisons follow ECMAScript: an operation
  with a \<open>NaN\<close> operand yields \<open>NaN\<close>, as does the difference of two equal infinities; a
  comparison with a \<open>NaN\<close> operand is false. The sizes and counters of a session stay
  far below \<open>2 ^ 53\<close>, where the sum and the difference of two doubles are exact.
\<close>

datatype number = Num int | NaN | Infinity | NegInfinity

fun num_add :: "number \<Rightarrow> number \<Rightarrow> number" where
  "num_add NaN _ = NaN"
| "num_add _ NaN = NaN"
| "num_add (Num a) (Num b) = Num (a + b)"
| "num_add Infinity NegInfinity = NaN"
| "num_add NegInfinity Infinity = NaN"
| "num_add Infinity _ = Infinity"
| "num_add _ Infinity = Infinity"
| "num_add NegInfinity _ = NegInfinity"
| "num_add _ NegInfinity = NegInfinity"

fun num_sub :: "number \<Rightarrow> number \<Rightarrow> number" where
  "num_sub NaN _ = NaN"
| "num_sub _ NaN = NaN"
| "num_sub (Num a) (Num b) = Num (a - b)"
| "num_sub Infinity Infinity = NaN"
| "num_sub NegInfinity NegInfinity = NaN"
| "num_sub Infinity _ = Infinity"
| "num_sub _ Infinity = NegInfinity"
| "num_sub NegInfinity _ = NegInfinity"
| "num_sub _ NegInfinity = Infinity"

fun num_le :: "number \<Rightarrow> number \<Rightarrow> bool" where
  "num_le NaN _ = False"
| "num_le _ NaN = False"
| "num_le (Num a) (Num b) = (a \<le> b)"
| "num_le NegInfinity _ = True"
| "num_le _ Infinity = True"
| "num_le _ _ = False"

fun num_lt :: "number \<Rightarrow> number \<Rightarrow> bool" where
  "num_lt NaN _ = False"
| "num_lt _ NaN = False"
| "num_lt (Num a) (Num b) = (a < b)"
| "num_lt Infinity _ = False"
| "num_lt _ NegInfinity = False"
| "num_lt _ _ = True"

fun num_ge :: "number \<Rightarrow> number \<Rightarrow> bool" where
  "num_ge NaN _ = False"
| "num_ge _ NaN = False"
| "num_ge (Num a) (Num b) = (b \<le> a)"
| "num_ge Infinity _ = True"
| "num_ge _ NegInfinity = True"
| "num_ge _ _ = False"

fun Math_min :: "number \<Rightarrow> number \<Rightarrow> number" where
  "Math_min NaN _ = NaN"
| "Math_min _ NaN = NaN"
| "Math_min (Num a) (Num b) = Num (min a b)"
| "Math_min NegInfinity _ = NegInfinity"
| "Math_min _ NegInfinity = NegInfinity"
| "Math_min Infinity b = b"
| "Math_min a Infinity = a"

fun Math_max :: "number \<Rightarrow> number \<Rightarrow> number" where
  "Math_max NaN _ = NaN"
| "Math_max _ NaN = NaN"
| "Math_max (Num a) (Num b) = Num (max a b)"
| "Math_max Infinity _ = Infinity"
| "Math_max _ Infinity = Infinity"
| "Math_max NegInfinity b = b"
| "Math_max a NegInfinity = a"

fun isNaN :: "number \<Rightarrow> bool" where
  "isNaN NaN = True"
| "isNaN _ = False"

text \<open>
  The double nearest to an integer, as a number: an integer of magnitude up to \<open>2 ^ 53\<close>
  is a double; a larger one is rounded to 53 significant bits, a tie to the even
  neighbour, and to an infinity once the rounded magnitude reaches \<open>2 ^ 1024\<close>.
\<close>

function bit_length :: "int \<Rightarrow> nat" where
  "bit_length n = (if n \<le> 0 then 0 else Suc (bit_length (n div 2)))"
  by pat_completeness auto
termination
  by (relation "measure nat") auto

declare bit_length.simps [simp del]

definition to_double :: "int \<Rightarrow> number" where
  "to_double v =
     (let m = \<bar>v\<bar> in
      if m \<le> 2 ^ 53 then Num v
      else
        let e = bit_length m - 53;
            q = m div 2 ^ e;
            r = m mod 2 ^ e;
            q' = (if 2 ^ e < 2 * r \<or> (2 * r = 2 ^ e \<and> odd q) then q + 1 else q)
        in if 2 ^ 1024 \<le> q' * 2 ^ e then (if v < 0 then NegInfinity else Infinity)
           else Num (sgn v * (q' * 2 ^ e)))"

text \<open>
  \<open>parseInt(string, 10)\<close>: leading white space is dropped, one sign is read, then the
  longest run of decimal digits; what follows the digits is ignored, and without a digit
  the result is \<open>NaN\<close>. With the radix given as 10 no \<open>0x\<close> prefix is recognised.
  The result is the double nearest to the signed value of the digits. (ECMAScript lets
  an implementation ignore the digits after the 20th; Node's engine rounds the whole
  numeral.) A character is a code unit below 256, so the white space is the ASCII white
  space and the no-break space.
\<close>

definition is_space :: "char \<Rightarrow> bool" where
  "is_space c = ((of_char c :: nat) \<in> {9, 10, 11, 12, 13, 32, 160})"

definition is_digit :: "char \<Rightarrow> bool" where
  "is_digit c = (48 \<le> (of_char c :: nat) \<and> (of_char c :: nat) \<le> 57)"

definition digit_value :: "char \<Rightarrow> int" where
  "digit_value c = int (of_char c) - 48"

definition digits_value :: "string \<Rightarrow> int" where
  "digits_value ds = foldl (\<lambda>acc c. 10 * acc + digit_value c) 0 ds"

fun read_sign :: "string \<Rightarrow> int \<times> string" where
  "read_sign [] = (1, [])"
| "read_sign (c # cs) =
     (if c = CHR ''-'' then (- 1, cs)
      else if c = CHR ''+'' then (1, cs)
      else (1, c # cs))"

definition parseInt :: "string \<Rightarrow> number" where
  "parseInt str =
     (let (sign, rest) = read_sign (dropWhile is_space str);
          Z = takeWhile is_digit rest
      in if Z = [] then NaN else to_double (sign * digits_value Z))"

section \<open>Responses\<close>

text \<open>
  The JSON bodies the handlers send with \<open>res.json\<close>, and a response as its status code
  with its body. \<open>res.json\<close> alone sends status 200. A body holds the values the handler
  passes; on the wire \<open>JSON.stringify\<close> writes an infinity as \<open>null\<close>.
\<close>

datatype body =
    ErrorBody (error: string)
  | PingBody (timestamp: int) (serverTime: int)
  | UploadBody (received: int) (expected: number) (duration: real) (timestamp: int)

record response =
  status :: nat
  body :: body

section \<open>The ping handler\<close>

text \<open>
  \<open>GET /api/ping\<close> reads the clock once (\<open>Date.now()\<close>, the argument here, in
  milliseconds) and sends the reading under both keys.
\<close>

definition ping :: "int \<Rightarrow> response" where
  "ping now = (let serverTime = now in \<lparr>status = 200, body = PingBody serverTime serverTime\<rparr>)"

section \<open>The download handler\<close>

text \<open>
  \<open>GET /api/download\<close>. The query parameter \<open>size\<close> is a string or absent. An absent
  and an empty parameter are both falsy in \<open>sizeParam ? ... : ...\<close>, and take the
  default of 100 MiB; any other string goes through \<open>parseInt\<close>. The result is clamped
  with \<open>Math.max(minSize, Math.min(maxSize, sizeBytes))\<close>.
\<close>

definition minSize :: int where
  "minSize = 50 * 1024 * 1024"

definition maxSize :: int where
  "maxSize = 200 * 1024 * 1024"

definition chunkSize :: int where
  "chunkSize = 64 * 1024"

definition sizeBytes_of :: "string option \<Rightarrow> number" where
  "sizeBytes_of sizeParam =
     (case sizeParam of
        None \<Rightarrow> Num (100 * 1024 * 1024)
      | Some str \<Rightarrow> if str = [] then Num (100 * 1024 * 1024) else parseInt str)"

definition finalSize_of :: "string option \<Rightarrow> number" where
  "finalSize_of sizeParam = Math_max (Num minSize) (Math_min (Num maxSize) (sizeBytes_of sizeParam))"

text \<open>
  The state of one download: the variables \<open>finalSize\<close>, \<open>sent\<close> and \<open>isDraining\<close> that
  the closure \<open>sendChunk\<close> shares, and what it has done to the response: the lengths of
  the buffers handed to \<open>res.write\<close>, in order, and the number of calls of \<open>res.end\<close>.
  (The bytes of a buffer come from \<open>Math.random\<close>; only its length is kept.)
  \<open>pending\<close> is the continuation the last run of \<open>sendChunk\<close> left behind: a callback in
  the \<open>process.nextTick\<close> queue, a one-shot listener for the response's \<open>drain\<close> event,
  or nothing.
\<close>

datatype continuation = Idle | NextTick | OnDrain

record session =
  finalSize :: number
  sent :: number
  isDraining :: bool
  written :: "int list"
  ended :: nat
  pending :: continuation

datatype js_error = RangeError

text \<open>
  \<open>Buffer.allocUnsafe(size)\<close> throws unless \<open>size\<close> is a number that is at least 0
  and at most the platform's maximal buffer length, which a chunk of at most
  \<open>chunkSize\<close> never reaches and an infinity exceeds. The result is the length of the new
  buffer.
\<close>

fun allocUnsafe :: "number \<Rightarrow> js_error + int" where
  "allocUnsafe (Num n) = (if n < 0 then Inl RangeError else Inr n)"
| "allocUnsafe _ = Inl RangeError"

text \<open>
  One run of \<open>sendChunk\<close>. \<open>canContinue\<close> is what \<open>res.write\<close> returns, should this run
  write: \<open>False\<close> when the transport's buffer is full. The transport is known by these
  answers and by its \<open>drain\<close> signal only; what it buffers is not part of the handler.
\<close>

definition sendChunk :: "bool \<Rightarrow> session \<Rightarrow> js_error + session" where
  "sendChunk canContinue s =
     (if num_ge (sent s) (finalSize s) then Inr (s\<lparr>ended := ended s + 1\<rparr>)
      else
        let remaining = num_sub (finalSize s) (sent s);
            currentChunkSize = Math_min (Num chunkSize) remaining
        in case allocUnsafe currentChunkSize of
             Inl e \<Rightarrow> Inl e
           | Inr len \<Rightarrow>
               let s1 = s\<lparr>sent := num_add (sent s) currentChunkSize,
                          written := written s @ [len]\<rparr>
               in if \<not> canContinue then Inr (s1\<lparr>isDraining := True, pending := OnDrain\<rparr>)
                  else if num_lt (sent s1) (finalSize s1) then Inr (s1\<lparr>pending := NextTick\<rparr>)
                  else Inr (s1\<lparr>ended := ended s1 + 1\<rparr>))"

text \<open>
  The handler: it sets up the closure's variables and calls \<open>sendChunk\<close> once, inside
  its \<open>try\<close>. An exception there is caught; no header has been sent then, and the
  handler answers 500. \<open>canContinue\<close> is the transport's answer to the first write.
\<close>

definition initial :: "number \<Rightarrow> session" where
  "initial target =
     \<lparr>finalSize = target, sent = Num 0, isDraining = False, written = [], ended = 0,
      pending = Idle\<rparr>"

definition download :: "string option \<Rightarrow> bool \<Rightarrow> response + session" where
  "download sizeParam canContinue =
     (case sendChunk canContinue (initial (finalSize_of sizeParam)) of
        Inl e \<Rightarrow> Inl \<lparr>status = 500, body = ErrorBody ''Download failed''\<rparr>
      | Inr s \<Rightarrow> Inr s)"

text \<open>
  After the handler has returned, \<open>sendChunk\<close> runs again only from the two callbacks
  it registers: when the runtime processes the \<open>nextTick\<close> queue, and when the response
  emits \<open>drain\<close>. Either event finds its callback or nothing to call; the \<open>drain\<close>
  listener (registered with \<open>once\<close>) is removed, clears \<open>isDraining\<close> and calls
  \<open>sendChunk\<close>.
\<close>

datatype event = NextTickQueue | DrainSignal

fun deliver :: "bool \<Rightarrow> event \<Rightarrow> session \<Rightarrow> js_error + session" where
  "deliver canContinue NextTickQueue s =
     (if pending s = NextTick then sendChunk canContinue (s\<lparr>pending := Idle\<rparr>) else Inr s)"
| "deliver canContinue DrainSignal s =
     (if pending s = OnDrain
      then sendChunk canContinue (s\<lparr>pending := Idle, isDraining := False\<rparr>)
      else Inr s)"

text \<open>
  A trace is a sequence of events, each with the answer the transport gives to the write
  of that step, if it writes.
\<close>

fun deliver_all :: "(event \<times> bool) list \<Rightarrow> session \<Rightarrow> js_error + session" where
  "deliver_all [] s = Inr s"
| "deliver_all ((e, canContinue) # tr) s =
     (case deliver canContinue e s of
        Inl x \<Rightarrow> Inl x
      | Inr s' \<Rightarrow> deliver_all tr s')"

text \<open>
  Running the loop to completion: as long as a continuation is pending, the event it
  waits for arrives. \<open>accepts i\<close> is the transport's answer to write number \<open>i\<close>.
  Nothing in \<open>sendChunk\<close> bounds the number of its runs: with an infinite target the
  loop would not end. So \<open>run\<close> is a partial function, \<open>None\<close> where the loop does not
  end; that it ends for every session the handler starts is part of what is proved
  below.
\<close>

definition awaited :: "session \<Rightarrow> event" where
  "awaited s = (if pending s = OnDrain then DrainSignal else NextTickQueue)"

partial_function (option) run :: "(nat \<Rightarrow> bool) \<Rightarrow> session \<Rightarrow> (js_error + session) option" where
  "run accepts s =
     (if pending s = Idle then Some (Inr s)
      else case deliver (accepts (length (written s))) (awaited s) s of
             Inl x \<Rightarrow> Some (Inl x)
           | Inr s' \<Rightarrow> run accepts s')"

text \<open>
  A bound on the runs of \<open>sendChunk\<close> still to come in a session with an integer target:
  every run from a pending continuation lowers it.
\<close>

definition left :: "session \<Rightarrow> nat" where
  "left s =
     (if pending s = Idle then 0
      else case (finalSize s, sent s) of
             (Num n, Num k) \<Rightarrow> 1 + nat (n - k)
           | _ \<Rightarrow> 1)"

subsection \<open>The invariant of a session\<close>

text \<open>
  What holds of a session with target \<open>n\<close> from the handler's return on: \<open>sent\<close> is the
  number of bytes written and at most \<open>n\<close>; every chunk has between 1 and \<open>chunkSize\<close>
  bytes; \<open>isDraining\<close> is set exactly while the \<open>drain\<close> listener is registered; no
  continuation is pending exactly when \<open>res.end\<close> has been called, which happens once
  and with all \<open>n\<close> bytes written; a callback waits in the \<open>nextTick\<close> queue only
  while bytes are missing.
\<close>

definition session_inv :: "int \<Rightarrow> session \<Rightarrow> bool" where
  "session_inv n s =
     (finalSize s = Num n \<and> sent s = Num (sum_list (written s))
      \<and> sum_list (written s) \<le> n
      \<and> (\<forall>c \<in> set (written s). 0 < c \<and> c \<le> chunkSize)
      \<and> (isDraining s = (pending s = OnDrain))
      \<and> ((pending s = Idle) = (ended s = 1)) \<and> ended s \<le> 1
      \<and> (pending s = Idle \<longrightarrow> sum_list (written s) = n)
      \<and> (pending s = NextTick \<longrightarrow> sum_list (written s) < n))"

section \<open>The upload handler\<close>

text \<open>
  \<open>POST /api/upload\<close>. The handler reads the clock, then the \<open>Content-Length\<close> header
  (a string or absent). An absent or empty header is falsy and is answered with 400;
  so is one for which \<open>parseInt\<close> yields \<open>NaN\<close> or a number that is not positive (what
  follows a leading numeral is not looked at). Only then are the listeners of the request
  stream installed.

  The state of one upload request: the response sent so far, if any (\<open>res.headersSent\<close>
  holds when there is one), and, once the listeners are installed, the variables they
  share.
\<close>

record upload_session =
  startTime :: int
  sizeBytes :: number
  receivedBytes :: int

record upload_request =
  sent_response :: "response option"
  listeners :: "upload_session option"

definition reject :: "string \<Rightarrow> upload_request" where
  "reject msg = \<lparr>sent_response = Some \<lparr>status = 400, body = ErrorBody msg\<rparr>, listeners = None\<rparr>"

definition upload :: "int \<Rightarrow> string option \<Rightarrow> upload_request" where
  "upload now contentLength =
     (let startTime = now in
      case contentLength of
        None \<Rightarrow> reject ''Content-Length header required''
      | Some str \<Rightarrow>
          if str = [] then reject ''Content-Length header required''
          else
            let sizeBytes = parseInt str
            in if isNaN sizeBytes \<or> num_le sizeBytes (Num 0)
               then reject ''Invalid Content-Length''
               else \<lparr>sent_response = None,
                     listeners = Some \<lparr>startTime = startTime, sizeBytes = sizeBytes,
                                        receivedBytes = 0\<rparr>\<rparr>)"

text \<open>
  The events of the request stream. \<open>Data\<close> carries the chunk, \<open>End\<close> the clock reading
  its listener takes. Without listeners an event runs no code of the handler. The \<open>end\<close>
  listener answers with \<open>res.json\<close>, which throws once a response has been sent; its
  \<open>catch\<close> then finds \<open>res.headersSent\<close> and sends nothing. The \<open>close\<close> listener only
  logs.
\<close>

type_synonym buffer = "8 word list"

datatype request_event = Data buffer | End int | StreamError | Close

fun on_event :: "upload_session \<Rightarrow> request_event \<Rightarrow> upload_request \<Rightarrow> upload_request" where
  "on_event u (Data chunk) r =
     r\<lparr>listeners := Some (u\<lparr>receivedBytes := receivedBytes u + int (length chunk)\<rparr>)\<rparr>"
| "on_event u (End now) r =
     (case sent_response r of
        Some _ \<Rightarrow> r
      | None \<Rightarrow>
          let endTime = now;
              duration = real_of_int (endTime - startTime u) / 1000;
              actualSize = receivedBytes u
          in r\<lparr>sent_response :=
                 Some \<lparr>status = 200,
                       body = UploadBody actualSize (sizeBytes u) duration endTime\<rparr>\<rparr>)"
| "on_event u StreamError r =
     (case sent_response r of
        Some _ \<Rightarrow> r
      | None \<Rightarrow> r\<lparr>sent_response := Some \<lparr>status = 500, body = ErrorBody ''Upload stream failed''\<rparr>\<rparr>)"
| "on_event u Close r = r"

definition emit :: "request_event \<Rightarrow> upload_request \<Rightarrow> upload_request" where
  "emit ev r = (case listeners r of None \<Rightarrow> r | Some u \<Rightarrow> on_event u ev r)"

definition emit_all :: "request_event list \<Rightarrow> upload_request \<Rightarrow> upload_request" where
  "emit_all evs r = foldl (\<lambda>r ev. emit ev r) r evs"

section \<open>Properties of the download handler\<close>

subsection \<open>One run of \<open>sendChunk\<close>\<close>

lemma sendChunk_more:
  assumes "finalSize s = Num n" and "sent s = Num k" and "k < n"
  shows "sendChunk b s =
           Inr (if \<not> b
                then s\<lparr>sent := Num (k + min chunkSize (n - k)),
                       written := written s @ [min chunkSize (n - k)],
                       isDraining := True, pending := OnDrain\<rparr>
                else if k + min chunkSize (n - k) < n
                then s\<lparr>sent := Num (k + min chunkSize (n - k)),
                       written := written s @ [min chunkSize (n - k)],
                       pending := NextTick\<rparr>
                else s\<lparr>sent := Num (k + min chunkSize (n - k)),
                       written := written s @ [min chunkSize (n - k)],
                       ended := ended s + 1\<rparr>)"
  using assms by (simp add: sendChunk_def chunkSize_def Let_def)

lemma sendChunk_done:
  assumes "finalSize s = Num n" and "sent s = Num k" and "n \<le> k"
  shows "sendChunk b s = Inr (s\<lparr>ended := ended s + 1\<rparr>)"
  using assms by (simp add: sendChunk_def)

lemma sendChunk_NaN: "sendChunk b (initial NaN) = Inl RangeError"
  by (simp add: sendChunk_def initial_def)

subsection \<open>A small transfer\<close>

text \<open>
  A target of 150000 bytes (below the clamp's range, for the sake of a short run), with
  the second write rejected: three chunks, the last one of the 18928 bytes that remain.
  The second lemma is the same transfer as a trace; its first event, a \<open>drain\<close> signal
  nobody waits for, changes nothing.
\<close>

lemma run_example:
  "sendChunk True (initial (Num 150000))
     = Inr \<lparr>finalSize = Num 150000, sent = Num 65536, isDraining = False, written = [65536],
            ended = 0, pending = NextTick\<rparr>
   \<and> run (\<lambda>i. i \<noteq> 1)
         \<lparr>finalSize = Num 150000, sent = Num 65536, isDraining = False, written = [65536],
          ended = 0, pending = NextTick\<rparr>
     = Some (Inr \<lparr>finalSize = Num 150000, sent = Num 150000, isDraining = False,
                  written = [65536, 65536, 18928], ended = 1, pending = Idle\<rparr>)"
  by (simp add: run.simps sendChunk_def initial_def chunkSize_def awaited_def)

lemma trace_example:
  "deliver_all [(DrainSignal, True), (NextTickQueue, False), (NextTickQueue, True),
                (DrainSignal, True)]
         \<lparr>finalSize = Num 150000, sent = Num 65536, isDraining = False, written = [65536],
          ended = 0, pending = NextTick\<rparr>
     = Inr \<lparr>finalSize = Num 150000, sent = Num 150000, isDraining = False,
            written = [65536, 65536, 18928], ended = 1, pending = Idle\<rparr>"
  by (simp add: sendChunk_def chunkSize_def)

lemma parseInt_examples:
  "parseInt ''10'' = Num 10" "parseInt ''  -12abc'' = Num (- 12)" "parseInt ''abc'' = NaN"
  "parseInt ''0x10'' = Num 0" "parseInt ''+'' = NaN" "parseInt [] = NaN"
  by (simp_all add: parseInt_def is_space_def is_digit_def digits_value_def digit_value_def
        to_double_def)

lemma to_double_examples:
  "to_double 9007199254740992 = Num 9007199254740992"
  "to_double 9007199254740993 = Num 9007199254740992"
  "to_double 9007199254740995 = Num 9007199254740996"
  "to_double (- 9007199254740995) = Num (- 9007199254740996)"
  "to_double (10 ^ 309) = Infinity"
  "to_double (- (10 ^ 309)) = NegInfinity"
  by code_simp+

text \<open>
  A numeral of 310 digits is read as \<open>Infinity\<close>. As a size parameter it is clamped to
  \<open>maxSize\<close>; as a \<open>Content-Length\<close> it passes the handler's test and is reported as
  the expected length.
\<close>

lemma parseInt_Infinity: "parseInt (CHR ''1'' # replicate 309 (CHR ''0'')) = Infinity"
  by code_simp

lemma finalSize_of_Infinity:
  "finalSize_of (Some (CHR ''1'' # replicate 309 (CHR ''0''))) = Num maxSize"
  by (simp add: finalSize_of_def sizeBytes_of_def parseInt_Infinity minSize_def maxSize_def)

lemma upload_Infinity:
  "upload 1000 (Some (CHR ''1'' # replicate 309 (CHR ''0'')))
     = \<lparr>sent_response = None,
        listeners = Some \<lparr>startTime = 1000, sizeBytes = Infinity, receivedBytes = 0\<rparr>\<rparr>"
  by (simp add: upload_def parseInt_Infinity)

subsection \<open>The invariant is kept\<close>

lemma session_inv_first:
  assumes "0 < n"
  shows "\<exists>s0. sendChunk b (initial (Num n)) = Inr s0 \<and> session_inv n s0"
  using assms sendChunk_more [of "initial (Num n)" n 0 b]
  by (auto simp: initial_def session_inv_def chunkSize_def)

lemma session_inv_deliver:
  assumes "session_inv n s"
  shows "\<exists>s'. deliver b e s = Inr s' \<and> session_inv n s'"
proof (cases "pending s \<noteq> Idle \<and> e = awaited s")
  case False
  then have "deliver b e s = Inr s"
    by (cases e; cases "pending s") (auto simp: awaited_def)
  with assms show ?thesis by simp
next
  case True
  let ?k = "sum_list (written s)"
  let ?r = "if pending s = OnDrain then s\<lparr>pending := Idle, isDraining := False\<rparr>
            else s\<lparr>pending := Idle\<rparr>"
  from True have d: "deliver b e s = sendChunk b ?r"
    by (cases "pending s") (auto simp: awaited_def)
  from assms have fs: "finalSize ?r = Num n" and st: "sent ?r = Num ?k"
    by (auto simp: session_inv_def)
  show ?thesis
  proof (cases "?k < n")
    case less: True
    show ?thesis
      using assms True less sendChunk_more [OF fs st less, of b] d
      by (auto simp: session_inv_def chunkSize_def)
  next
    case ge: False
    then have "n \<le> ?k" by simp
    from sendChunk_done [OF fs st this, of b] assms True d ge show ?thesis
      by (cases "pending s") (auto simp: session_inv_def)
  qed
qed

lemma session_inv_deliver_all:
  assumes "session_inv n s"
  shows "\<exists>s'. deliver_all tr s = Inr s' \<and> session_inv n s'"
  using assms
proof (induction tr arbitrary: s)
  case Nil
  then show ?case by simp
next
  case (Cons eb tr)
  obtain e b where eb: "eb = (e, b)" by (cases eb)
  from session_inv_deliver [OF Cons.prems, of b e]
  obtain s1 where "deliver b e s = Inr s1" and "session_inv n s1" by blast
  with Cons.IH [of s1] eb show ?case by simp
qed

lemma deliver_left:
  assumes "pending s \<noteq> Idle" and "deliver b (awaited s) s = Inr s'"
    and "finalSize s = Num n" and "sent s = Num k"
  shows "left s' < left s"
  using assms
  by (cases "pending s")
     (auto simp: awaited_def sendChunk_def chunkSize_def left_def Let_def split: if_splits)

lemma session_inv_run:
  assumes "session_inv n s"
  shows "\<exists>s'. run accepts s = Some (Inr s') \<and> session_inv n s' \<and> pending s' = Idle"
  using assms
proof (induction "left s" arbitrary: s rule: less_induct)
  case less
  show ?case
  proof (cases "pending s = Idle")
    case True
    with less.prems show ?thesis by (simp add: run.simps [of accepts s])
  next
    case False
    from session_inv_deliver [OF less.prems, of "accepts (length (written s))" "awaited s"]
    obtain s1 where d: "deliver (accepts (length (written s))) (awaited s) s = Inr s1"
      and i: "session_inv n s1" by blast
    from less.prems have "finalSize s = Num n" and "sent s = Num (sum_list (written s))"
      by (simp_all add: session_inv_def)
    with False d have "left s1 < left s" by (rule deliver_left)
    from less.hyps [OF this i] obtain s' where
      "run accepts s1 = Some (Inr s')" "session_inv n s'" "pending s' = Idle" by blast
    with False d show ?thesis by (simp add: run.simps [of accepts s])
  qed
qed

subsection \<open>The target size\<close>

lemma finalSize_of_cases:
  "finalSize_of p = NaN \<or> (\<exists>n. finalSize_of p = Num n \<and> minSize \<le> n \<and> n \<le> maxSize)"
  by (cases "sizeBytes_of p") (auto simp: finalSize_of_def minSize_def maxSize_def)

lemma finalSize_of_range:
  assumes "finalSize_of p = Num n"
  shows "minSize \<le> n \<and> n \<le> maxSize"
  using assms finalSize_of_cases [of p] by auto

lemma download_started:
  assumes "download p b = Inr s0"
  shows "\<exists>n. finalSize_of p = Num n \<and> minSize \<le> n \<and> n \<le> maxSize
             \<and> sendChunk b (initial (Num n)) = Inr s0 \<and> session_inv n s0"
proof -
  from assms have "finalSize_of p \<noteq> NaN"
    by (auto simp: download_def sendChunk_NaN)
  with finalSize_of_cases [of p] obtain n where
    n: "finalSize_of p = Num n" and r: "minSize \<le> n \<and> n \<le> maxSize" by blast
  then have "0 < n" by (simp add: minSize_def)
  from session_inv_first [OF this, of b] obtain s1 where
    s1: "sendChunk b (initial (Num n)) = Inr s1" "session_inv n s1" by blast
  with assms n have "s1 = s0" by (simp add: download_def)
  with s1 n r show ?thesis by simp
qed

subsection \<open>The bytes of a download\<close>

text \<open>
  C1. For every target size \<open>n\<close> from 50 MiB to 200 MiB (the size of a request whose
  clamped size is \<open>n\<close>), and whatever the transport answers to the writes: the handler's
  first run of \<open>sendChunk\<close> succeeds, and the loop run to completion ends, with exactly
  \<open>n\<close> bytes written, in chunks of 1 to 64 KiB, with \<open>res.end\<close> called once and nothing
  left pending. On the way, after any sequence of events, at most \<open>n\<close> bytes are written,
  \<open>res.end\<close> has been called at most once, it has been called exactly if all \<open>n\<close> bytes
  are written and no continuation is pending, and after it no event changes the session.
\<close>

theorem download_writes_exactly_target:
  assumes "minSize \<le> n" and "n \<le> maxSize"
  shows "\<exists>s0 s'. sendChunk (accepts 0) (initial (Num n)) = Inr s0
           \<and> (finalSize_of p = Num n \<longrightarrow> download p (accepts 0) = Inr s0)
           \<and> run accepts s0 = Some (Inr s')
           \<and> sum_list (written s') = n
           \<and> (\<forall>c \<in> set (written s'). 0 < c \<and> c \<le> 64 * 1024)
           \<and> ended s' = 1 \<and> pending s' = Idle
           \<and> (\<forall>tr. \<exists>s. deliver_all tr s0 = Inr s
                  \<and> sum_list (written s) \<le> n
                  \<and> (\<forall>c \<in> set (written s). 0 < c \<and> c \<le> 64 * 1024)
                  \<and> ended s \<le> 1
                  \<and> (ended s = 1 \<longleftrightarrow> sum_list (written s) = n \<and> pending s = Idle)
                  \<and> (ended s = 1 \<longrightarrow> (\<forall>e b. deliver b e s = Inr s)))"
proof -
  from assms have "0 < n" by (simp add: minSize_def)
  from session_inv_first [OF this, of "accepts 0"] obtain s0 where
    s0: "sendChunk (accepts 0) (initial (Num n)) = Inr s0" and i0: "session_inv n s0" by blast
  from session_inv_run [OF i0, of accepts] obtain s' where
    s': "run accepts s0 = Some (Inr s')" and i': "session_inv n s'" and p': "pending s' = Idle"
    by blast
  have tr: "\<exists>s. deliver_all tr s0 = Inr s
                  \<and> sum_list (written s) \<le> n
                  \<and> (\<forall>c \<in> set (written s). 0 < c \<and> c \<le> 64 * 1024)
                  \<and> ended s \<le> 1
                  \<and> (ended s = 1 \<longleftrightarrow> sum_list (written s) = n \<and> pending s = Idle)
                  \<and> (ended s = 1 \<longrightarrow> (\<forall>e b. deliver b e s = Inr s))" for tr
  proof -
    from session_inv_deliver_all [OF i0, of tr] obtain s where
      s: "deliver_all tr s0 = Inr s" and i: "session_inv n s" by blast
    have "deliver b e s = Inr s" if "ended s = 1" for e b
      using that i by (cases e) (auto simp: session_inv_def)
    with s i show ?thesis
      by (auto simp: session_inv_def chunkSize_def)
  qed
  have "download p (accepts 0) = Inr s0" if "finalSize_of p = Num n"
    using that s0 by (simp add: download_def)
  with s0 s' i' p' tr show ?thesis
    by (auto simp: session_inv_def chunkSize_def)
qed

theorem download_writes_exactly_target_witness:
  "minSize \<le> 60000000 \<and> 60000000 \<le> maxSize
   \<and> finalSize_of (Some ''60000000'') = Num 60000000
   \<and> (\<exists>s0 s'. download (Some ''60000000'') True = Inr s0
         \<and> run (\<lambda>i. i mod 3 = 0) s0 = Some (Inr s')
         \<and> sum_list (written s') = 60000000
         \<and> ended s' = 1 \<and> pending s' = Idle)"
proof -
  have lo: "minSize \<le> 60000000" and hi: "60000000 \<le> maxSize"
    by (simp_all add: minSize_def maxSize_def)
  have fs: "finalSize_of (Some ''60000000'') = Num 60000000"
    by (simp add: finalSize_of_def sizeBytes_of_def parseInt_def is_space_def is_digit_def
          digits_value_def digit_value_def to_double_def minSize_def maxSize_def)
  from download_writes_exactly_target [OF lo hi, of "\<lambda>i. i mod 3 = 0" "Some ''60000000''"] fs
  have "\<exists>s0 s'. download (Some ''60000000'') True = Inr s0
         \<and> run (\<lambda>i. i mod 3 = 0) s0 = Some (Inr s')
         \<and> sum_list (written s') = 60000000
         \<and> ended s' = 1 \<and> pending s' = Idle"
    by auto
  with lo hi fs show ?thesis by simp
qed

subsection \<open>The counter \<open>sent\<close>\<close>

lemma session_inv_sent:
  assumes "session_inv n s"
  shows "\<exists>k. sent s = Num k \<and> 0 \<le> k \<and> k \<le> n \<and> (k < n \<longrightarrow> pending s \<noteq> Idle)"
proof -
  from assms have "\<forall>c \<in> set (written s). 0 \<le> c"
    by (auto simp: session_inv_def)
  then have "0 \<le> sum_list (written s)" by (simp add: sum_list_nonneg)
  with assms show ?thesis by (auto simp: session_inv_def)
qed

lemma session_inv_step_sent:
  assumes "session_inv n s" and "sent s = Num k"
  shows "\<exists>s'. deliver b e s = Inr s'
           \<and> sent s' = (if pending s \<noteq> Idle \<and> e = awaited s
                        then Num (k + min chunkSize (n - k)) else Num k)"
proof (cases "pending s \<noteq> Idle \<and> e = awaited s")
  case False
  then have "deliver b e s = Inr s"
    by (cases e; cases "pending s") (auto simp: awaited_def)
  with assms False show ?thesis by auto
next
  case True
  let ?r = "if pending s = OnDrain then s\<lparr>pending := Idle, isDraining := False\<rparr>
            else s\<lparr>pending := Idle\<rparr>"
  from True have d: "deliver b e s = sendChunk b ?r"
    by (cases "pending s") (auto simp: awaited_def)
  from assms have fs: "finalSize ?r = Num n" and st: "sent ?r = Num k"
    by (auto simp: session_inv_def)
  from assms have kn: "k \<le> n" by (auto simp: session_inv_def)
  show ?thesis
  proof (cases "k < n")
    case less: True
    from sendChunk_more [OF fs st less, of b] d True show ?thesis by auto
  next
    case False
    with kn have "n \<le> k" and "k = n" by simp_all
    with sendChunk_done [OF fs st \<open>n \<le> k\<close>, of b] d True st show ?thesis
      by (auto simp: chunkSize_def)
  qed
qed

text \<open>
  C6. In every download session (whatever the request and the transport's answers), the
  target is a number \<open>n\<close> from 50 MiB to 200 MiB, \<open>chunkSize\<close> is 64 KiB, and \<open>sent\<close>
  starts at 0 and is \<open>min chunkSize n\<close> when the handler returns. After any sequence of
  events \<open>sent\<close> is a number \<open>k\<close> with \<open>0 \<le> k \<le> n\<close>; while \<open>k < n\<close> a continuation is
  pending; and the next event leaves \<open>sent\<close> at \<open>k + min chunkSize (n - k)\<close>, at most \<open>n\<close>
  and above \<open>k\<close> while \<open>k < n\<close>, if it is the event the continuation waits for, and
  unchanged otherwise.
\<close>

theorem sent_bounded_and_increasing:
  assumes "download p b0 = Inr s0"
  shows "\<exists>n. finalSize s0 = Num n \<and> minSize \<le> n \<and> n \<le> maxSize
           \<and> chunkSize = 64 * 1024
           \<and> sent (initial (Num n)) = Num 0 \<and> sent s0 = Num (0 + min chunkSize (n - 0))
           \<and> (\<forall>tr. \<exists>s k. deliver_all tr s0 = Inr s
                  \<and> finalSize s = Num n \<and> sent s = Num k \<and> 0 \<le> k \<and> k \<le> n
                  \<and> (k < n \<longrightarrow> pending s \<noteq> Idle \<and> k < k + min chunkSize (n - k))
                  \<and> k + min chunkSize (n - k) \<le> n
                  \<and> (\<forall>e b. \<exists>s'. deliver b e s = Inr s'
                         \<and> sent s' = (if pending s \<noteq> Idle \<and> e = awaited s
                                      then Num (k + min chunkSize (n - k)) else Num k)))"
proof -
  from download_started [OF assms] obtain n where
    n: "finalSize_of p = Num n" "minSize \<le> n" "n \<le> maxSize"
    and s0: "sendChunk b0 (initial (Num n)) = Inr s0" and i0: "session_inv n s0" by blast
  from n have pos: "0 < n" by (simp add: minSize_def)
  have first: "sent s0 = Num (0 + min chunkSize (n - 0))"
    using sendChunk_more [of "initial (Num n)" n 0 b0] pos s0
    by (auto simp: initial_def split: if_splits)
  have tr: "\<exists>s k. deliver_all tr s0 = Inr s
                  \<and> finalSize s = Num n \<and> sent s = Num k \<and> 0 \<le> k \<and> k \<le> n
                  \<and> (k < n \<longrightarrow> pending s \<noteq> Idle \<and> k < k + min chunkSize (n - k))
                  \<and> k + min chunkSize (n - k) \<le> n
                  \<and> (\<forall>e b. \<exists>s'. deliver b e s = Inr s'
                         \<and> sent s' = (if pending s \<noteq> Idle \<and> e = awaited s
                                      then Num (k + min chunkSize (n - k)) else Num k))" for tr
  proof -
    from session_inv_deliver_all [OF i0, of tr] obtain s where
      s: "deliver_all tr s0 = Inr s" and i: "session_inv n s" by blast
    from session_inv_sent [OF i] obtain k where
      k: "sent s = Num k" "0 \<le> k" "k \<le> n" "k < n \<longrightarrow> pending s \<noteq> Idle" by blast
    have arith: "(k < n \<longrightarrow> k < k + min chunkSize (n - k)) \<and> k + min chunkSize (n - k) \<le> n"
      using k by (auto simp: chunkSize_def)
    from i have fs: "finalSize s = Num n" by (simp add: session_inv_def)
    from session_inv_step_sent [OF i k(1)] s k arith fs show ?thesis by blast
  qed
  from i0 have "finalSize s0 = Num n" by (simp add: session_inv_def)
  with n first tr show ?thesis
    by (auto simp: initial_def chunkSize_def)
qed

theorem sent_bounded_and_increasing_witness:
  "download None False =
     Inr \<lparr>finalSize = Num 104857600, sent = Num 65536, isDraining = True,
          written = [65536], ended = 0, pending = OnDrain\<rparr>
   \<and> (\<exists>n. minSize \<le> n \<and> n \<le> maxSize
         \<and> (\<forall>tr. \<exists>s k. deliver_all tr \<lparr>finalSize = Num 104857600, sent = Num 65536,
                        isDraining = True, written = [65536], ended = 0, pending = OnDrain\<rparr>
                      = Inr s
                  \<and> finalSize s = Num n \<and> sent s = Num k \<and> 0 \<le> k \<and> k \<le> n))"
proof -
  have d: "download None False =
     Inr \<lparr>finalSize = Num 104857600, sent = Num 65536, isDraining = True,
          written = [65536], ended = 0, pending = OnDrain\<rparr>"
    by (simp add: download_def finalSize_of_def sizeBytes_of_def minSize_def maxSize_def
          sendChunk_def initial_def chunkSize_def)
  from sent_bounded_and_increasing [OF d] obtain n where
    "minSize \<le> n" "n \<le> maxSize"
    "\<forall>tr. \<exists>s k. deliver_all tr \<lparr>finalSize = Num 104857600, sent = Num 65536,
                        isDraining = True, written = [65536], ended = 0, pending = OnDrain\<rparr>
                      = Inr s
                  \<and> finalSize s = Num n \<and> sent s = Num k \<and> 0 \<le> k \<and> k \<le> n"
    by blast
  with d show ?thesis by blast
qed

subsection \<open>Waiting for \<open>drain\<close>\<close>

lemma session_inv_transitions:
  assumes "session_inv n s" and "deliver b e s = Inr s'"
  shows "(\<not> isDraining s \<and> isDraining s' \<longrightarrow> \<not> b \<and> (\<exists>c. written s' = written s @ [c]))
       \<and> ((\<exists>c. written s' = written s @ [c]) \<longrightarrow> isDraining s' = (\<not> b))
       \<and> (isDraining s \<and> s' \<noteq> s \<longrightarrow> e = DrainSignal)
       \<and> (s' = s \<or> (pending s \<noteq> Idle \<and> e = awaited s))"
proof (cases "pending s \<noteq> Idle \<and> e = awaited s")
  case False
  then have "deliver b e s = Inr s"
    by (cases e; cases "pending s") (auto simp: awaited_def)
  with assms show ?thesis by auto
next
  case True
  let ?k = "sum_list (written s)"
  let ?r = "if pending s = OnDrain then s\<lparr>pending := Idle, isDraining := False\<rparr>
            else s\<lparr>pending := Idle\<rparr>"
  from True have d: "deliver b e s = sendChunk b ?r"
    by (cases "pending s") (auto simp: awaited_def)
  from assms have fs: "finalSize ?r = Num n" and st: "sent ?r = Num ?k"
    by (auto simp: session_inv_def)
  from assms(1) have dr: "isDraining s = (pending s = OnDrain)"
    by (simp add: session_inv_def)
  show ?thesis
  proof (cases "?k < n")
    case less: True
    from sendChunk_more [OF fs st less, of b] d assms(2) True dr show ?thesis
      by (auto simp: awaited_def split: if_splits)
  next
    case False
    then have "n \<le> ?k" by simp
    from sendChunk_done [OF fs st this, of b] d assms(2) True dr show ?thesis
      by (auto simp: awaited_def split: if_splits)
  qed
qed

text \<open>
  C5. \<open>isDraining\<close> tells the two states of the writer apart: set, it waits for
  \<open>drain\<close>; clear, it writes. In every download session, after any sequence of events:
  \<open>isDraining\<close> is set exactly while the \<open>drain\<close> listener is registered; while it is
  set, processing the \<open>nextTick\<close> queue changes nothing (no buffer is generated, nothing
  is written), and the \<open>drain\<close> signal runs \<open>sendChunk\<close> again with the flag cleared.
  For every step: the writer starts to wait only in a step that made a write the
  transport rejected; a step that writes ends waiting exactly if the write was rejected;
  and a waiting writer changes in no step but one of the \<open>drain\<close> signal.
\<close>

theorem backpressure_suspends_until_drain:
  assumes "download p b0 = Inr s0"
  shows "(isDraining s0 \<longleftrightarrow> \<not> b0)
       \<and> (\<forall>tr. \<exists>s. deliver_all tr s0 = Inr s
              \<and> (isDraining s \<longleftrightarrow> pending s = OnDrain)
              \<and> (isDraining s \<longrightarrow>
                    (\<forall>b. deliver b NextTickQueue s = Inr s)
                  \<and> (\<forall>b. deliver b DrainSignal s
                            = sendChunk b (s\<lparr>pending := Idle, isDraining := False\<rparr>)))
              \<and> (\<forall>e b. \<exists>s'. deliver b e s = Inr s'
                    \<and> (\<not> isDraining s \<and> isDraining s'
                          \<longrightarrow> \<not> b \<and> (\<exists>c. written s' = written s @ [c]))
                    \<and> ((\<exists>c. written s' = written s @ [c]) \<longrightarrow> (isDraining s' \<longleftrightarrow> \<not> b))
                    \<and> (isDraining s \<and> s' \<noteq> s \<longrightarrow> e = DrainSignal)))"
proof -
  from download_started [OF assms] obtain n where
    lo: "minSize \<le> n" and s0: "sendChunk b0 (initial (Num n)) = Inr s0"
    and i0: "session_inv n s0" by blast
  from lo have n: "0 < n" by (simp add: minSize_def)
  have first: "isDraining s0 \<longleftrightarrow> \<not> b0"
    using sendChunk_more [of "initial (Num n)" n 0 b0] n s0
    by (auto simp: initial_def split: if_splits)
  have tr: "\<exists>s. deliver_all tr s0 = Inr s
              \<and> (isDraining s \<longleftrightarrow> pending s = OnDrain)
              \<and> (isDraining s \<longrightarrow>
                    (\<forall>b. deliver b NextTickQueue s = Inr s)
                  \<and> (\<forall>b. deliver b DrainSignal s
                            = sendChunk b (s\<lparr>pending := Idle, isDraining := False\<rparr>)))
              \<and> (\<forall>e b. \<exists>s'. deliver b e s = Inr s'
                    \<and> (\<not> isDraining s \<and> isDraining s'
                          \<longrightarrow> \<not> b \<and> (\<exists>c. written s' = written s @ [c]))
                    \<and> ((\<exists>c. written s' = written s @ [c]) \<longrightarrow> (isDraining s' \<longleftrightarrow> \<not> b))
                    \<and> (isDraining s \<and> s' \<noteq> s \<longrightarrow> e = DrainSignal))" for tr
  proof -
    from session_inv_deliver_all [OF i0, of tr] obtain s where
      s: "deliver_all tr s0 = Inr s" and i: "session_inv n s" by blast
    from i have dr: "isDraining s \<longleftrightarrow> pending s = OnDrain"
      by (simp add: session_inv_def)
    have step: "\<exists>s'. deliver b e s = Inr s'
                    \<and> (\<not> isDraining s \<and> isDraining s'
                          \<longrightarrow> \<not> b \<and> (\<exists>c. written s' = written s @ [c]))
                    \<and> ((\<exists>c. written s' = written s @ [c]) \<longrightarrow> (isDraining s' \<longleftrightarrow> \<not> b))
                    \<and> (isDraining s \<and> s' \<noteq> s \<longrightarrow> e = DrainSignal)" for e b
    proof -
      from session_inv_deliver [OF i, of b e] obtain s' where
        d: "deliver b e s = Inr s'" by blast
      from session_inv_transitions [OF i d] d show ?thesis by blast
    qed
    from s dr step show ?thesis by auto
  qed
  from first tr show ?thesis by blast
qed

theorem backpressure_suspends_until_drain_witness:
  "download None False =
     Inr \<lparr>finalSize = Num 104857600, sent = Num 65536, isDraining = True,
          written = [65536], ended = 0, pending = OnDrain\<rparr>
   \<and> (\<forall>tr. \<exists>s. deliver_all tr \<lparr>finalSize = Num 104857600, sent = Num 65536,
                        isDraining = True, written = [65536], ended = 0, pending = OnDrain\<rparr>
                      = Inr s
                  \<and> (isDraining s \<longleftrightarrow> pending s = OnDrain))"
proof -
  have d: "download None False =
     Inr \<lparr>finalSize = Num 104857600, sent = Num 65536, isDraining = True,
          written = [65536], ended = 0, pending = OnDrain\<rparr>"
    by (simp add: download_def finalSize_of_def sizeBytes_of_def minSize_def maxSize_def
          sendChunk_def initial_def chunkSize_def)
  from backpressure_suspends_until_drain [OF d] d show ?thesis by blast
qed

subsection \<open>The size parameter\<close>

lemma parseInt_empty: "parseInt [] = NaN"
  by (simp add: parseInt_def)

lemma download_streams:
  assumes "finalSize_of p = Num n"
  shows "\<exists>s. download p b = Inr s \<and> finalSize s = Num n"
proof -
  from finalSize_of_range [OF assms] have "0 < n" by (simp add: minSize_def)
  from session_inv_first [OF this, of b] assms show ?thesis
    by (auto simp: download_def session_inv_def)
qed

text \<open>
  C2. When \<open>parseInt\<close> of the size parameter is an integer \<open>n\<close>, the target size of the
  transfer is \<open>max (50 MiB) (min (200 MiB) n)\<close>: 50 MiB for \<open>n\<close> below, 200 MiB for \<open>n\<close>
  above; the handler starts a session with that target. Without a size parameter the
  target is 100 MiB.
\<close>

theorem download_size_clamped:
  "(parseInt str = Num n \<longrightarrow>
      finalSize_of (Some str) = Num (max (50 * 1024 * 1024) (min (200 * 1024 * 1024) n))
      \<and> (\<exists>s. download (Some str) b = Inr s
             \<and> finalSize s = Num (max (50 * 1024 * 1024) (min (200 * 1024 * 1024) n)))
      \<and> (n < 50 * 1024 * 1024 \<longrightarrow> finalSize_of (Some str) = Num (50 * 1024 * 1024))
      \<and> (200 * 1024 * 1024 < n \<longrightarrow> finalSize_of (Some str) = Num (200 * 1024 * 1024)))
   \<and> finalSize_of None = Num (100 * 1024 * 1024)
   \<and> (\<exists>s. download None b = Inr s \<and> finalSize s = Num (100 * 1024 * 1024))"
proof -
  have none: "finalSize_of None = Num (100 * 1024 * 1024)"
    by (simp add: finalSize_of_def sizeBytes_of_def minSize_def maxSize_def)
  have some: "finalSize_of (Some str) = Num (max (50 * 1024 * 1024) (min (200 * 1024 * 1024) n))"
    if "parseInt str = Num n"
  proof -
    from that have "str \<noteq> []" by (auto simp: parseInt_empty)
    with that show ?thesis
      by (simp add: finalSize_of_def sizeBytes_of_def minSize_def maxSize_def)
  qed
  from download_streams [OF none, of b] download_streams [OF some, of b] none some
  show ?thesis by auto
qed

theorem download_size_clamped_witness:
  "parseInt ''10'' = Num 10
   \<and> finalSize_of (Some ''10'') = Num (50 * 1024 * 1024)
   \<and> parseInt ''500000000'' = Num 500000000
   \<and> finalSize_of (Some ''500000000'') = Num (200 * 1024 * 1024)"
proof -
  have a: "parseInt ''10'' = Num 10" and b: "parseInt ''500000000'' = Num 500000000"
    by (simp_all add: parseInt_def is_space_def is_digit_def digits_value_def digit_value_def
          to_double_def)
  from download_size_clamped [of "''10''" 10 True] download_size_clamped [of "''500000000''" 500000000 True] a b
  show ?thesis by simp
qed

text \<open>
  C9, as stated, fails for the empty parameter (\<open>/api/download?size=\<close>): \<open>parseInt\<close> of
  the empty string is \<open>NaN\<close>, but an empty string is falsy, the handler takes the 100 MiB
  default and starts to stream.
\<close>

theorem download_size_empty_counterexample:
  "parseInt [] = NaN
   \<and> finalSize_of (Some []) = Num 104857600
   \<and> download (Some []) True =
       Inr \<lparr>finalSize = Num 104857600, sent = Num 65536, isDraining = False,
            written = [65536], ended = 0, pending = NextTick\<rparr>"
  by (simp add: parseInt_def download_def finalSize_of_def sizeBytes_of_def minSize_def
        maxSize_def sendChunk_def initial_def chunkSize_def)

text \<open>
  C9, amended. For every size parameter that is not empty and for which \<open>parseInt\<close> yields
  \<open>NaN\<close>, the final size is \<open>NaN\<close>: the clamp propagates it. No payload is streamed:
  the first run of \<open>sendChunk\<close> throws when it allocates its buffer, before any write,
  and the handler answers 500.
\<close>

theorem download_size_NaN:
  assumes "str \<noteq> []" and "parseInt str = NaN"
  shows "finalSize_of (Some str) = NaN
       \<and> sendChunk b (initial (finalSize_of (Some str))) = Inl RangeError
       \<and> download (Some str) b = Inl \<lparr>status = 500, body = ErrorBody ''Download failed''\<rparr>"
proof -
  from assms have "finalSize_of (Some str) = NaN"
    by (simp add: finalSize_of_def sizeBytes_of_def)
  then show ?thesis by (simp add: download_def sendChunk_NaN)
qed

theorem download_size_NaN_witness:
  "''abc'' \<noteq> [] \<and> parseInt ''abc'' = NaN \<and> finalSize_of (Some ''abc'') = NaN
   \<and> download (Some ''abc'') True = Inl \<lparr>status = 500, body = ErrorBody ''Download failed''\<rparr>"
proof -
  have a: "''abc'' \<noteq> []" by simp
  have b: "parseInt ''abc'' = NaN"
    by (simp add: parseInt_def is_space_def is_digit_def)
  from download_size_NaN [OF a b, of True] a b show ?thesis by simp
qed

section \<open>Properties of the upload handler\<close>

lemma emit_all_rejected:
  assumes "listeners r = None"
  shows "emit_all evs r = r"
proof -
  have "foldl (\<lambda>r ev. emit ev r) r evs = r"
    using assms by (induction evs) (simp_all add: emit_def)
  then show ?thesis by (simp add: emit_all_def)
qed




text \<open>
  \<open>parseInt\<close> yields \<open>NaN\<close> exactly for the strings without a decimal digit after the
  leading white space and the sign. A header of decimal digits only, of a value up to
  \<open>2 ^ 53\<close>, is read as that value.
\<close>

lemma to_double_not_NaN: "\<not> isNaN (to_double v)"
  by (simp add: to_double_def Let_def)

lemma parseInt_NaN_iff:
  "isNaN (parseInt str)
     \<longleftrightarrow> takeWhile is_digit (snd (read_sign (dropWhile is_space str))) = []"
  by (cases "read_sign (dropWhile is_space str)")
     (simp add: parseInt_def Let_def to_double_not_NaN)

lemma parseInt_digits:
  assumes "str \<noteq> []" and "\<forall>c \<in> set str. is_digit c" and "digits_value str \<le> 2 ^ 53"
  shows "parseInt str = Num (digits_value str)"
proof -
  obtain c cs where str: "str = c # cs" using assms(1) by (cases str) auto
  with assms(2) have c: "is_digit c" by simp
  then have "\<not> is_space c" and "c \<noteq> CHR ''-''" and "c \<noteq> CHR ''+''"
    by (auto simp: is_digit_def is_space_def)
  with str have rs: "read_sign (dropWhile is_space str) = (1, str)" by simp
  from assms(2) have tw: "takeWhile is_digit str = str" by simp
  have "0 \<le> foldl (\<lambda>acc c. 10 * acc + digit_value c) a ds"
    if "0 \<le> a" and "\<forall>c \<in> set ds. is_digit c" for a ds
    using that by (induction ds arbitrary: a) (auto simp: is_digit_def digit_value_def)
  from this [of 0 str] assms(2) have "0 \<le> digits_value str" by (simp add: digits_value_def)
  with assms(3) have "to_double (digits_value str) = Num (digits_value str)"
    by (simp add: to_double_def)
  with assms(1) show ?thesis by (simp add: parseInt_def rs tw)
qed

text \<open>
  C3, as stated, fails for a header that is not a number but starts with a numeral, such
  as \<open>12abc\<close>: \<open>parseInt\<close> reads the 12 and ignores the rest, the handler installs its
  listeners, counts the bytes of the body and answers 200.
\<close>

theorem upload_non_numeric_counterexample:
  "upload 1000 (Some ''12abc'')
     = \<lparr>sent_response = None,
        listeners = Some \<lparr>startTime = 1000, sizeBytes = Num 12, receivedBytes = 0\<rparr>\<rparr>
   \<and> emit_all [Data [1, 2, 3], End 2000] (upload 1000 (Some ''12abc''))
     = \<lparr>sent_response = Some \<lparr>status = 200, body = UploadBody 3 (Num 12) 1 2000\<rparr>,
        listeners = Some \<lparr>startTime = 1000, sizeBytes = Num 12, receivedBytes = 3\<rparr>\<rparr>"
  by (simp add: upload_def parseInt_def is_space_def is_digit_def digits_value_def
        digit_value_def to_double_def emit_all_def emit_def)

text \<open>
  C3, amended. When the \<open>Content-Length\<close> header is absent, or \<open>parseInt\<close> of it is \<open>NaN\<close>
  (as for an empty header and for every header without a decimal digit after its leading
  white space and sign) or not positive, the upload handler answers with status 400 and
  one of its two error messages, and installs no listener: whatever the request stream
  emits afterwards, no byte is counted and the state of the request stays as the handler
  left it.
\<close>

theorem upload_rejects_invalid_length:
  assumes "case contentLength of
             None \<Rightarrow> True
           | Some str \<Rightarrow> isNaN (parseInt str) \<or> num_le (parseInt str) (Num 0)"
  shows "\<exists>msg. (msg = ''Content-Length header required'' \<or> msg = ''Invalid Content-Length'')
           \<and> upload now contentLength
               = \<lparr>sent_response = Some \<lparr>status = 400, body = ErrorBody msg\<rparr>,
                  listeners = None\<rparr>
           \<and> (\<forall>evs. emit_all evs (upload now contentLength) = upload now contentLength)"
proof -
  have "\<exists>msg. (msg = ''Content-Length header required'' \<or> msg = ''Invalid Content-Length'')
           \<and> upload now contentLength = reject msg"
  proof (cases contentLength)
    case None
    then have "upload now contentLength = reject ''Content-Length header required''"
      by (simp add: upload_def)
    then show ?thesis by blast
  next
    case (Some str)
    with assms have "upload now contentLength = reject ''Content-Length header required''
                   \<or> upload now contentLength = reject ''Invalid Content-Length''"
      by (auto simp: upload_def)
    then show ?thesis by blast
  qed
  then obtain msg where
    m: "msg = ''Content-Length header required'' \<or> msg = ''Invalid Content-Length''"
    and u: "upload now contentLength = reject msg" by blast
  have "listeners (reject msg) = None" by (simp add: reject_def)
  then have "emit_all evs (reject msg) = reject msg" for evs by (rule emit_all_rejected)
  with m u show ?thesis by (auto simp: reject_def)
qed

theorem upload_rejects_invalid_length_witness:
  "isNaN (parseInt ''abc'')
   \<and> (\<exists>msg. upload 1000 (Some ''abc'')
               = \<lparr>sent_response = Some \<lparr>status = 400, body = ErrorBody msg\<rparr>,
                  listeners = None\<rparr>)
   \<and> emit_all [Data [1, 2, 3], End 2000] (upload 1000 (Some ''abc''))
       = upload 1000 (Some ''abc'')"
proof -
  have a: "isNaN (parseInt ''abc'')"
    by (simp add: parseInt_def is_space_def is_digit_def)
  then have h: "case Some ''abc'' of
                  None \<Rightarrow> True
                | Some str \<Rightarrow> isNaN (parseInt str) \<or> num_le (parseInt str) (Num 0)"
    by simp
  from upload_rejects_invalid_length [OF h, of 1000] obtain msg where
    "upload 1000 (Some ''abc'')
       = \<lparr>sent_response = Some \<lparr>status = 400, body = ErrorBody msg\<rparr>, listeners = None\<rparr>"
    and "\<forall>evs. emit_all evs (upload 1000 (Some ''abc'')) = upload 1000 (Some ''abc'')"
    by blast
  with a show ?thesis by blast
qed




section \<open>Properties of the ping handler\<close>

text \<open>
  C7, as stated, fails when the wall clock is set back between two calls: the handler
  keeps no state and sends each reading of \<open>Date.now()\<close> as it is.
\<close>

theorem ping_timestamps_counterexample:
  "\<not> timestamp (body (map ping [1005, 1003] ! 0)) \<le> timestamp (body (map ping [1005, 1003] ! 1))"
  by (simp add: ping_def)

text \<open>
  C7, amended. For sequential calls of the ping handler whose clock readings do not
  decrease, the \<open>timestamp\<close> of each response is at least the \<open>timestamp\<close> of every
  earlier response; each \<open>timestamp\<close> is the clock reading of its call.
\<close>

theorem ping_timestamps_follow_clock:
  assumes "sorted clock" and "i < j" and "j < length clock"
  shows "timestamp (body (map ping clock ! i)) \<le> timestamp (body (map ping clock ! j))
       \<and> timestamp (body (map ping clock ! j)) = clock ! j"
proof -
  from assms have "clock ! i \<le> clock ! j" by (simp add: sorted_nth_mono)
  with assms show ?thesis by (simp add: ping_def Let_def)
qed

theorem ping_timestamps_follow_clock_witness:
  "sorted [1000, 1000, 1007 :: int] \<and> (0::nat) < 2 \<and> 2 < length [1000, 1000, 1007 :: int]
   \<and> timestamp (body (map ping [1000, 1000, 1007] ! 0))
       \<le> timestamp (body (map ping [1000, 1000, 1007] ! 2))"
proof -
  have s: "sorted [1000, 1000, 1007 :: int]" by simp
  have l: "(0::nat) < 2" and m: "2 < length [1000, 1000, 1007 :: int]" by simp_all
  from ping_timestamps_follow_clock [OF s l m] s show ?thesis by simp
qed


text \<open>
  C10. In every response of the ping handler the fields \<open>timestamp\<close> and \<open>serverTime\<close>
  are equal: both are the one clock reading the handler takes, and the response has
  status 200.
\<close>

theorem ping_timestamp_eq_serverTime:
  "timestamp (body (ping now)) = serverTime (body (ping now))
   \<and> body (ping now) = PingBody now now
   \<and> status (ping now) = 200"
  by (simp add: ping_def)

end
